theory Spec2Isabelle
  imports Complex_Main "HOL-Library.Word"
begin

unbundle bit_operations_syntax

section \<open>Common data: bytes, errors\<close>

text \<open>
  The engine works on \<open>Uint8Array\<close> views of binary buffers. A byte is an 8-bit word, a
  buffer a list of bytes. An exception of the source is a value of \<open>error\<close>; a function
  that can throw returns \<open>error + 'a\<close> with \<open>Inl\<close> for the thrown error.
  The argument of \<open>PlainError\<close> and \<open>RezParseError\<close> is the offending signature that the
  source splices into its message.
\<close>

type_synonym byte = "8 word"

datatype error = RangeError | TypeError | PlainError string | RezParseError string

section \<open>core/TileCollisionMap.ts\<close>

text \<open>
  \<open>TileAttribute = 0 | 1 | 2 | 3\<close> is stored in a \<open>Uint8Array\<close>; the four codes are
  named as the source comments name them.
\<close>

type_synonym TileAttribute = byte

definition Empty :: TileAttribute where "Empty = 0"
definition Solid :: TileAttribute where "Solid = 1"
definition OneWayPlatform :: TileAttribute where "OneWayPlatform = 2"
definition Ladder :: TileAttribute where "Ladder = 3"

record TileCollisionMap =
  data :: "byte list"
  cols :: int
  rows :: int
  tileSize :: int

text \<open>
  The constructor allocates \<open>new Uint8Array(cols * rows)\<close>, zero-filled; a negative length
  throws RangeError. (Allocation limits of the host are not modelled.)
\<close>

definition TileCollisionMap_new :: "int \<Rightarrow> int \<Rightarrow> int \<Rightarrow> error + TileCollisionMap" where
  "TileCollisionMap_new c r ts =
     (if c * r < 0 then Inl RangeError
      else Inr \<lparr>data = replicate (nat (c * r)) 0, cols = c, rows = r, tileSize = ts\<rparr>)"

text \<open>\<open>set(col, row, attr)\<close>: silently ignored out of range.\<close>

definition set_tcm :: "TileCollisionMap \<Rightarrow> int \<Rightarrow> int \<Rightarrow> TileAttribute \<Rightarrow> TileCollisionMap" where
  "set_tcm m col row attr =
     (if col < 0 \<or> col \<ge> cols m \<or> row < 0 \<or> row \<ge> rows m then m
      else m\<lparr>data := (data m)[nat (row * cols m + col) := attr]\<rparr>)"

text \<open>
  \<open>get(col, row)\<close>: out of range is solid. Reading a typed array past its end gives
  \<open>undefined\<close> in JavaScript, which is \<open>None\<close> here; maps built by the constructor never
  do so (lemma \<open>get_tcm_defined\<close>).
\<close>

definition get_tcm :: "TileCollisionMap \<Rightarrow> int \<Rightarrow> int \<Rightarrow> TileAttribute option" where
  "get_tcm m col row =
     (if col < 0 \<or> col \<ge> cols m \<or> row < 0 \<or> row \<ge> rows m then Some 1
      else if nat (row * cols m + col) < length (data m)
           then Some (data m ! nat (row * cols m + col)) else None)"

text \<open>
  JavaScript numbers are modelled as exact real numbers: the arithmetic of the source is
  carried out without IEEE rounding, and \<open>NaN\<close> and the infinities appear only where a
  division by zero makes them (written out below). \<open>Math.floor\<close> is \<open>\<lfloor>_\<rfloor>\<close>.

  \<open>getAtPixel\<close> divides by the tile size. With a tile size of zero the quotient is
  \<open>+Infinity\<close> or \<open>-Infinity\<close> (out of range on either side, hence solid) unless the
  coordinate is zero, when it is \<open>NaN\<close>: every range comparison is then false and the
  array read gives \<open>undefined\<close>.
\<close>

definition getAtPixel :: "TileCollisionMap \<Rightarrow> real \<Rightarrow> real \<Rightarrow> TileAttribute option" where
  "getAtPixel m px py =
     (if tileSize m = 0 then (if px = 0 \<and> py = 0 then None else Some 1)
      else get_tcm m \<lfloor>px / of_int (tileSize m)\<rfloor> \<lfloor>py / of_int (tileSize m)\<rfloor>)"


definition isLadder :: "TileCollisionMap \<Rightarrow> real \<Rightarrow> real \<Rightarrow> bool" where
  "isLadder m px py = (getAtPixel m px py = Some 3)"

definition isOneWayPlatform :: "TileCollisionMap \<Rightarrow> real \<Rightarrow> real \<Rightarrow> bool" where
  "isOneWayPlatform m px py = (getAtPixel m px py = Some 2)"

text \<open>
  Class invariant established by the constructor: the array has one byte per cell.
\<close>

definition wf_tcm :: "TileCollisionMap \<Rightarrow> bool" where
  "wf_tcm m = (length (data m) = nat (cols m * rows m))"

text \<open>
  For the lookup contract: a history of \<open>set\<close> calls applied in order, and, in the words
  of the specification, "the value last set at that cell" (the initial value if never set).
\<close>

type_synonym set_op = "int \<times> int \<times> TileAttribute"

definition apply_sets :: "TileCollisionMap \<Rightarrow> set_op list \<Rightarrow> TileCollisionMap" where
  "apply_sets m ops = foldl (\<lambda>m (c, r, a). set_tcm m c r a) m ops"

definition last_set :: "TileAttribute \<Rightarrow> set_op list \<Rightarrow> int \<Rightarrow> int \<Rightarrow> TileAttribute" where
  "last_set initial ops col row =
     foldl (\<lambda>cur (c, r, a). if c = col \<and> r = row then a else cur) initial ops"

section \<open>core/PhysicsSystem.ts\<close>














section \<open>core/GameLoop.ts\<close>

text \<open>
  The state of the loop. The constructor sets \<open>logicInterval = 1000 / logicTickRate\<close>
  (milliseconds per logic tick). The handle returned by \<open>requestAnimationFrame\<close> is
  opaque: \<open>rafPending\<close> records whether \<open>rafHandle\<close> is non-null. Times are exact reals.
\<close>

record GameLoop =
  logicInterval :: real
  rafPending :: bool
  previousTime :: real
  accumulator :: real
  running :: bool
  frameCount :: nat
  lastFPSTime :: real
  currentFPS :: nat
  logicTicksThisSecond :: nat
  logicTickCounter :: nat


text \<open>
  The constructor. A tick rate of zero makes the interval \<open>Infinity\<close>, which is outside
  the model (\<open>None\<close>).
\<close>

definition GameLoop_new :: "real \<Rightarrow> GameLoop option" where
  "GameLoop_new logicTickRate =
     (if logicTickRate = 0 then None
      else Some \<lparr>logicInterval = 1000 / logicTickRate, rafPending = False, previousTime = 0,
                 accumulator = 0, running = False, frameCount = 0, lastFPSTime = 0,
                 currentFPS = 0, logicTicksThisSecond = 0, logicTickCounter = 0\<rparr>)"




text \<open>
  \<open>start\<close> takes the current \<open>performance.now()\<close> from its caller; \<open>stop\<close> cancels
  the pending frame. Both are idempotent as in the source.
\<close>

definition start :: "GameLoop \<Rightarrow> real \<Rightarrow> GameLoop" where
  "start g now =
     (if running g then g
      else g\<lparr>running := True, previousTime := now, rafPending := True\<rparr>)"

definition stop :: "GameLoop \<Rightarrow> GameLoop" where
  "stop g = (g\<lparr>running := False\<rparr>)\<lparr>rafPending := False\<rparr>"

section \<open>Reading binary buffers\<close>

text \<open>
  \<open>raw[i]\<close> on a \<open>Uint8Array\<close> is \<open>undefined\<close> past the end (\<open>None\<close>); storing
  \<open>undefined\<close> into a typed array stores 0. \<open>raw.slice(a, b)\<close> clamps to the buffer.
  \<open>String.fromCharCode\<close> of bytes is the string with these character codes.
\<close>

definition byte_at :: "byte list \<Rightarrow> nat \<Rightarrow> byte option" where
  "byte_at raw i = (if i < length raw then Some (raw ! i) else None)"

definition stored :: "byte option \<Rightarrow> byte" where
  "stored v = (case v of None \<Rightarrow> 0 | Some b \<Rightarrow> b)"

definition slice :: "byte list \<Rightarrow> nat \<Rightarrow> nat \<Rightarrow> byte list" where
  "slice raw a b = take (b - a) (drop a raw)"

definition fromCharCode :: "byte list \<Rightarrow> string" where
  "fromCharCode bs = map (\<lambda>b. char_of (unat b)) bs"



definition getUint32 :: "byte list \<Rightarrow> nat \<Rightarrow> bool \<Rightarrow> error + nat" where
  "getUint32 buf off littleEndian =
     (if off + 4 > length buf then Inl RangeError
      else if littleEndian
      then Inr (unat (buf ! off) + 256 * unat (buf ! (off + 1)) +
                65536 * unat (buf ! (off + 2)) + 16777216 * unat (buf ! (off + 3)))
      else Inr (16777216 * unat (buf ! off) + 65536 * unat (buf ! (off + 1)) +
                256 * unat (buf ! (off + 2)) + unat (buf ! (off + 3))))"

definition getInt32 :: "byte list \<Rightarrow> nat \<Rightarrow> bool \<Rightarrow> error + int" where
  "getInt32 buf off littleEndian =
     (case getUint32 buf off littleEndian of
        Inl e \<Rightarrow> Inl e
      | Inr n \<Rightarrow> Inr (if n \<ge> 2 ^ 31 then int n - 2 ^ 32 else int n))"

text \<open>Sequencing of computations that can throw.\<close>

definition and_then :: "error + 'a \<Rightarrow> ('a \<Rightarrow> error + 'b) \<Rightarrow> error + 'b" where
  "and_then r f = (case r of Inl e \<Rightarrow> Inl e | Inr v \<Rightarrow> f v)"

section \<open>parsers/PidLoader.ts\<close>


record PidFrame =
  width :: nat
  height :: nat
  offsetX :: int
  offsetY :: int
  flags :: nat
  pixels :: "byte list"

subsection \<open>\<open>decompressRLE\<close>\<close>

text \<open>
  The decoder state is the output array, the source position and the destination
  position. The two inner \<open>for\<close> loops count down the remaining \<open>count - i\<close>.
\<close>

fun run_loop :: "nat \<Rightarrow> byte \<Rightarrow> nat \<Rightarrow> byte list \<times> nat \<Rightarrow> byte list \<times> nat" where
  "run_loop 0 v expectedPixels (out, dstPos) = (out, dstPos)"
| "run_loop (Suc n) v expectedPixels (out, dstPos) =
     (if dstPos < expectedPixels
      then run_loop n v expectedPixels (out[dstPos := v], dstPos + 1)
      else (out, dstPos))"

fun literal_loop :: "nat \<Rightarrow> byte list \<Rightarrow> nat \<Rightarrow> byte list \<times> nat \<times> nat \<Rightarrow> byte list \<times> nat \<times> nat" where
  "literal_loop 0 src expectedPixels (out, srcPos, dstPos) = (out, srcPos, dstPos)"
| "literal_loop (Suc n) src expectedPixels (out, srcPos, dstPos) =
     (if dstPos < expectedPixels \<and> srcPos < length src
      then literal_loop n src expectedPixels (out[dstPos := src ! srcPos], srcPos + 1, dstPos + 1)
      else (out, srcPos, dstPos))"

lemma literal_loop_srcPos:
  "literal_loop n src e (out, s, d) = (out', s', d') \<Longrightarrow> s \<le> s'"
proof (induction n arbitrary: out s d)
  case 0
  then show ?case by simp
next
  case (Suc n)
  show ?case
  proof (cases "d < e \<and> s < length src")
    case True
    then have "literal_loop n src e (out[d := src ! s], s + 1, d + 1) = (out', s', d')"
      using Suc.prems by simp
    then have "s + 1 \<le> s'" by (rule Suc.IH)
    then show ?thesis by simp
  next
    case False
    then show ?thesis using Suc.prems by auto
  qed
qed

function (sequential) rle_loop :: "byte list \<Rightarrow> nat \<Rightarrow> byte list \<times> nat \<times> nat \<Rightarrow> byte list \<times> nat \<times> nat" where
  "rle_loop src expectedPixels (out, srcPos, dstPos) =
     (if dstPos < expectedPixels \<and> srcPos < length src then
        (let control = src ! srcPos; srcPos1 = srcPos + 1 in
         if control \<le> 0x7F then
           (let count = unat control + 1;
                v = byte_at src srcPos1;
                srcPos2 = srcPos1 + 1;
                (out', dstPos') = run_loop count (stored v) expectedPixels (out, dstPos)
            in rle_loop src expectedPixels (out', srcPos2, dstPos'))
         else
           (let count = unat control - 0x80 + 1
            in rle_loop src expectedPixels
                 (literal_loop count src expectedPixels (out, srcPos1, dstPos))))
      else (out, srcPos, dstPos))"
  by pat_completeness auto
termination
proof (relation "measure (\<lambda>(src, e, out, s, d). length src - s)", goal_cases)
  case 1
  show ?case by simp
next
  case 2
  then show ?case by auto
next
  case 3
  then show ?case by (auto split: prod.splits dest!: literal_loop_srcPos)
qed

declare rle_loop.simps [simp del]

text \<open>
  \<open>decompressRLE(src, srcOffset, expectedPixels)\<close>: the output array starts zero-filled;
  the warning printed when fewer pixels were produced has no effect on the result.
\<close>

definition decompressRLE :: "byte list \<Rightarrow> nat \<Rightarrow> nat \<Rightarrow> byte list" where
  "decompressRLE src srcOffset expectedPixels =
     fst (rle_loop src expectedPixels (replicate expectedPixels 0, srcOffset, 0))"

text \<open>
  The decoding rule in the words of the specification: a control byte \<open>C \<le> 0x7F\<close>
  repeats the next single byte \<open>C + 1\<close> times, a control byte \<open>C \<ge> 0x80\<close> copies the next
  \<open>C - 0x80 + 1\<close> bytes verbatim (as many as the source still has); a run whose byte is
  missing produces nothing. \<open>rle_spec\<close> stops at the expected count and leaves the
  unfilled rest of the output zero.
\<close>

fun rle_expand :: "byte list \<Rightarrow> byte list" where
  "rle_expand [] = []"
| "rle_expand (c # rest) =
     (if c \<le> 0x7F
      then (case rest of [] \<Rightarrow> [] | v # rest' \<Rightarrow> replicate (unat c + 1) v @ rle_expand rest')
      else take (unat c - 0x80 + 1) rest @ rle_expand (drop (unat c - 0x80 + 1) rest))"

definition pad :: "nat \<Rightarrow> byte list \<Rightarrow> byte list" where
  "pad n xs = take n xs @ replicate (n - length xs) 0"

definition rle_spec :: "byte list \<Rightarrow> nat \<Rightarrow> nat \<Rightarrow> byte list" where
  "rle_spec src srcOffset expectedPixels = pad expectedPixels (rle_expand (drop srcOffset src))"

subsection \<open>\<open>parse\<close>\<close>

text \<open>
  A palette byte is read as \<open>palette[pi + k]\<close> with \<open>pi = idx * 3\<close>. When the index
  itself is \<open>undefined\<close> (the index array is shorter than the pixel count) \<open>pi\<close>
  (here \<open>p_i\<close>) is
  \<open>NaN\<close>, here \<open>None\<close>, and the read gives \<open>undefined\<close>; the pixel array stores 0 for
  \<open>undefined\<close>.
\<close>

definition palette_byte :: "byte list \<Rightarrow> nat option \<Rightarrow> nat \<Rightarrow> byte" where
  "palette_byte palette p_i k =
     (case p_i of None \<Rightarrow> 0 | Some p \<Rightarrow> stored (byte_at palette (p + k)))"






text \<open>
  The four output bytes of a pixel in the words of the specification: transparent black
  for index 0 under the colour key, otherwise the palette entry of the index with alpha
  255. (A pixel without an index, or an entry outside the palette, reads as 0.)
\<close>

definition rgba_of :: "bool \<Rightarrow> byte list \<Rightarrow> byte option \<Rightarrow> byte list" where
  "rgba_of hasColorKey palette idx =
     (if hasColorKey \<and> idx = Some 0 then [0, 0, 0, 0]
      else [palette_byte palette (map_option (\<lambda>v. unat v * 3) idx) 0,
            palette_byte palette (map_option (\<lambda>v. unat v * 3) idx) 1,
            palette_byte palette (map_option (\<lambda>v. unat v * 3) idx) 2,
            255])"

section \<open>parsers/WwdLoader.ts\<close>

definition WWD_MAGIC :: nat where "WWD_MAGIC = 0x574F524C"
definition HEADER_SIZE :: nat where "HEADER_SIZE = 1536"
definition OBJECT_ENTRY_SIZE :: nat where "OBJECT_ENTRY_SIZE = 360"
definition MAX_LAYERS :: nat where "MAX_LAYERS = 8"
definition LAYER_HEADER_SIZE :: nat where "LAYER_HEADER_SIZE = 52"

text \<open>
  A layer. \<open>tiles\<close> is an \<open>Int32Array\<close>: signed 32-bit words, read with \<open>sint\<close>. The
  fields \<open>name\<close> and \<open>flags\<close> carry a prefix here (and in the level record) because
  other records have fields of these names.
\<close>

record WwdLayer =
  layer_name :: string
  layer_flags :: nat
  fillTileId :: int
  tilesWide :: int
  tilesHigh :: int
  tileWidth :: int
  tileHeight :: int
  moveXPercent :: int
  moveYPercent :: int
  tiles :: "32 word list"

text \<open>
  An object record is 360 bytes, decoded field by field by \<open>parseObject\<close>. The fields
  \<open>id\<close>, \<open>name\<close>, \<open>x\<close>, ... carry the prefix \<open>obj_\<close> here, and those of the nested
  \<open>moveRect\<close> the prefix \<open>rect_\<close>.
\<close>

record MoveRect =
  rect_minX :: int
  rect_maxX :: int
  rect_minY :: int
  rect_maxY :: int

record WwdObject =
  obj_id :: int
  obj_name :: string
  obj_logic :: string
  obj_imageSet :: string
  obj_animation :: string
  obj_x :: int
  obj_y :: int
  obj_z :: int
  obj_width :: int
  obj_height :: int
  obj_speed :: int
  obj_points :: int
  obj_health :: int
  obj_damage :: int
  obj_smarts :: int
  obj_minX :: int
  obj_maxX :: int
  obj_minY :: int
  obj_maxY :: int
  obj_moveRect :: MoveRect
  obj_userValue1 :: int
  obj_userValue2 :: int
  obj_userValue3 :: int
  obj_userValue4 :: int
  obj_userValue5 :: int
  obj_userValue6 :: int
  obj_userValue7 :: int
  obj_userValue8 :: int
  obj_addFlags :: nat
  obj_dynamicFlags :: nat
  obj_drawFlags :: nat
  obj_userFlags :: nat
  obj_type :: int
  obj_typeFlags :: nat

record WwdLevel =
  version :: nat
  level_flags :: nat
  level_name :: string
  author :: string
  birth :: string
  rezFile :: string
  imageDir :: string
  palRez :: string
  startX :: int
  startY :: int
  launchApp :: string
  imageSet1 :: string
  imageSet2 :: string
  imageSet3 :: string
  imageSet4 :: string
  prefix1 :: string
  prefix2 :: string
  prefix3 :: string
  prefix4 :: string
  layers :: "WwdLayer list"
  objects :: "WwdObject list"
  collisionMap :: TileCollisionMap

text \<open>
  \<open>readString\<close>: the bytes from \<open>offset\<close> up to the first zero byte, at most
  \<open>maxLen\<close> of them and never past the end of the buffer.
\<close>

definition readString :: "byte list \<Rightarrow> nat \<Rightarrow> nat \<Rightarrow> string" where
  "readString raw offset maxLen =
     fromCharCode (takeWhile (\<lambda>b. b \<noteq> 0) (slice raw offset (min (offset + maxLen) (length raw))))"

text \<open>
  \<open>new Int32Array(buffer, byteOffset, length)\<close> throws RangeError when the offset is not
  a multiple of 4, when the length is negative and when the view does not fit in the
  buffer. The elements are little-endian.
\<close>

definition le32 :: "byte list \<Rightarrow> nat \<Rightarrow> 32 word" where
  "le32 buf off =
     word_of_nat (unat (buf ! off) + 256 * unat (buf ! (off + 1)) +
                  65536 * unat (buf ! (off + 2)) + 16777216 * unat (buf ! (off + 3)))"

definition Int32Array :: "byte list \<Rightarrow> nat \<Rightarrow> int \<Rightarrow> error + 32 word list" where
  "Int32Array buf byteOffset len =
     (if byteOffset mod 4 \<noteq> 0 then Inl RangeError
      else if len < 0 then Inl RangeError
      else if byteOffset + nat len * 4 > length buf then Inl RangeError
      else Inr (map (\<lambda>i. le32 buf (byteOffset + i * 4)) [0..<nat len]))"

definition parseLayerHeader :: "byte list \<Rightarrow> nat \<Rightarrow> error + WwdLayer" where
  "parseLayerHeader raw base =
     and_then (getUint32 raw (base + 0x00) True) (\<lambda>fl.
     (let nm = readString raw (base + 0x04) 32 in
     and_then (getInt32 raw (base + 0x24) True) (\<lambda>fill.
     and_then (getInt32 raw (base + 0x28) True) (\<lambda>wide.
     and_then (getInt32 raw (base + 0x2C) True) (\<lambda>high.
     and_then (getInt32 raw (base + 0x30) True) (\<lambda>tw.
     and_then (getInt32 raw (base + 0x34) True) (\<lambda>th.
     and_then (getInt32 raw (base + 0x38) True) (\<lambda>mx.
     and_then (getInt32 raw (base + 0x3C) True) (\<lambda>my.
     and_then (getUint32 raw (base + 0x40) True) (\<lambda>tilesOffset.
     (let tileCount = wide * high in
      and_then (Int32Array raw tilesOffset tileCount) (\<lambda>ts.
        Inr \<lparr>layer_name = nm, layer_flags = fl, fillTileId = fill, tilesWide = wide,
             tilesHigh = high, tileWidth = tw, tileHeight = th, moveXPercent = mx,
             moveYPercent = my, tiles = ts\<rparr>))))))))))))"

text \<open>
  \<open>parseObject\<close>: the strings cannot throw, so only the order of the numeric reads is
  kept.
\<close>

definition parseObject :: "byte list \<Rightarrow> nat \<Rightarrow> error + WwdObject" where
  "parseObject raw base =
     and_then (getInt32 raw (base + 0x00) True) (\<lambda>i_id.
     and_then (getInt32 raw (base + 0xE4) True) (\<lambda>x.
     and_then (getInt32 raw (base + 0xE8) True) (\<lambda>y.
     and_then (getInt32 raw (base + 0xEC) True) (\<lambda>z.
     and_then (getInt32 raw (base + 0xF0) True) (\<lambda>w.
     and_then (getInt32 raw (base + 0xF4) True) (\<lambda>h.
     and_then (getInt32 raw (base + 0xF8) True) (\<lambda>speed.
     and_then (getInt32 raw (base + 0xFC) True) (\<lambda>points.
     and_then (getInt32 raw (base + 0x100) True) (\<lambda>health.
     and_then (getInt32 raw (base + 0x104) True) (\<lambda>damage.
     and_then (getInt32 raw (base + 0x108) True) (\<lambda>smarts.
     and_then (getInt32 raw (base + 0x10C) True) (\<lambda>minX.
     and_then (getInt32 raw (base + 0x110) True) (\<lambda>maxX.
     and_then (getInt32 raw (base + 0x114) True) (\<lambda>minY.
     and_then (getInt32 raw (base + 0x118) True) (\<lambda>maxY.
     and_then (getInt32 raw (base + 0x11C) True) (\<lambda>rminX.
     and_then (getInt32 raw (base + 0x120) True) (\<lambda>rmaxX.
     and_then (getInt32 raw (base + 0x124) True) (\<lambda>rminY.
     and_then (getInt32 raw (base + 0x128) True) (\<lambda>rmaxY.
     and_then (getInt32 raw (base + 0x12C) True) (\<lambda>uv1.
     and_then (getInt32 raw (base + 0x130) True) (\<lambda>uv2.
     and_then (getInt32 raw (base + 0x134) True) (\<lambda>uv3.
     and_then (getInt32 raw (base + 0x138) True) (\<lambda>uv4.
     and_then (getInt32 raw (base + 0x13C) True) (\<lambda>uv5.
     and_then (getInt32 raw (base + 0x140) True) (\<lambda>uv6.
     and_then (getInt32 raw (base + 0x144) True) (\<lambda>uv7.
     and_then (getInt32 raw (base + 0x148) True) (\<lambda>uv8.
     and_then (getUint32 raw (base + 0x14C) True) (\<lambda>addFlags.
     and_then (getUint32 raw (base + 0x150) True) (\<lambda>dynamicFlags.
     and_then (getUint32 raw (base + 0x154) True) (\<lambda>drawFlags.
     and_then (getUint32 raw (base + 0x158) True) (\<lambda>userFlags.
     and_then (getInt32 raw (base + 0x15C) True) (\<lambda>ty.
     and_then (getUint32 raw (base + 0x160) True) (\<lambda>typeFlags.
       Inr \<lparr>obj_id = i_id,
            obj_name = readString raw (base + 0x04) 32,
            obj_logic = readString raw (base + 0x24) 32,
            obj_imageSet = readString raw (base + 0x44) 128,
            obj_animation = readString raw (base + 0xC4) 32,
            obj_x = x, obj_y = y, obj_z = z, obj_width = w, obj_height = h,
            obj_speed = speed, obj_points = points, obj_health = health,
            obj_damage = damage, obj_smarts = smarts,
            obj_minX = minX, obj_maxX = maxX, obj_minY = minY, obj_maxY = maxY,
            obj_moveRect = \<lparr>rect_minX = rminX, rect_maxX = rmaxX,
                                rect_minY = rminY, rect_maxY = rmaxY\<rparr>,
            obj_userValue1 = uv1, obj_userValue2 = uv2, obj_userValue3 = uv3,
            obj_userValue4 = uv4, obj_userValue5 = uv5, obj_userValue6 = uv6,
            obj_userValue7 = uv7, obj_userValue8 = uv8,
            obj_addFlags = addFlags, obj_dynamicFlags = dynamicFlags,
            obj_drawFlags = drawFlags, obj_userFlags = userFlags,
            obj_type = ty, obj_typeFlags = typeFlags\<rparr>)))))))))))))))))))))))))))))))))"

text \<open>The layer loop: the first header that fails to parse throws.\<close>

fun parse_layers :: "byte list \<Rightarrow> nat \<Rightarrow> nat list \<Rightarrow> error + WwdLayer list" where
  "parse_layers raw layerOffset [] = Inr []"
| "parse_layers raw layerOffset (i # rest) =
     and_then (parseLayerHeader raw (layerOffset + i * LAYER_HEADER_SIZE)) (\<lambda>l.
     and_then (parse_layers raw layerOffset rest) (\<lambda>ls. Inr (l # ls)))"

text \<open>
  The object loop: \<open>i\<close> counts up, the last argument is the number of iterations left;
  the loop breaks at the first record that would end past the buffer.
\<close>

fun parse_objects :: "byte list \<Rightarrow> nat \<Rightarrow> nat \<Rightarrow> nat \<Rightarrow> error + WwdObject list" where
  "parse_objects raw objectsOffset i 0 = Inr []"
| "parse_objects raw objectsOffset i (Suc n) =
     (let objBase = objectsOffset + i * OBJECT_ENTRY_SIZE in
      if objBase + OBJECT_ENTRY_SIZE > length raw then Inr []
      else and_then (parseObject raw objBase) (\<lambda>obj.
           and_then (parse_objects raw objectsOffset (i + 1) n) (\<lambda>objs. Inr (obj # objs))))"

subsection \<open>\<open>buildCollisionMap\<close>\<close>

text \<open>
  The body of the two nested loops. In JavaScript \<open>tileId & 0x80000000\<close> is the sign bit
  of the 32-bit value. A tile read past the array is \<open>undefined\<close>: it is not below zero,
  its \<open>&\<close> is 0 and it is not \<open>=== 0\<close>, so the cell is set to 0.
\<close>

definition build_cell :: "WwdLayer \<Rightarrow> int \<Rightarrow> int \<Rightarrow> TileCollisionMap \<Rightarrow> TileCollisionMap" where
  "build_cell layer row col m =
     (let idx = row * tilesWide layer + col in
      if nat idx < length (tiles layer) then
        (let tileId = tiles layer ! nat idx in
         if sint tileId < 0 then m
         else (let solid = ((tileId AND 0x80000000) \<noteq> 0 \<or> tileId = 0)
               in set_tcm m col row (if solid then 1 else 0)))
      else set_tcm m col row 0)"

text \<open>
  \<open>buildCollisionMap(layer)\<close>; the argument is \<open>undefined\<close> (\<open>None\<close>) when the level
  has no layer, and reading \<open>layer.tilesWide\<close> then throws TypeError.
\<close>

definition buildCollisionMap :: "WwdLayer option \<Rightarrow> error + TileCollisionMap" where
  "buildCollisionMap layer =
     (case layer of
        None \<Rightarrow> Inl TypeError
      | Some l \<Rightarrow>
          and_then (TileCollisionMap_new (tilesWide l) (tilesHigh l) (tileWidth l)) (\<lambda>m.
            Inr (fold (\<lambda>row m. fold (\<lambda>col m. build_cell l row col m) [0..tilesWide l - 1] m)
                   [0..tilesHigh l - 1] m)))"

subsection \<open>\<open>parse\<close>\<close>

text \<open>\<open>layers[1] ?? layers[0]\<close>\<close>

definition actionLayer :: "WwdLayer list \<Rightarrow> WwdLayer option" where
  "actionLayer ls =
     (if 1 < length ls then Some (ls ! 1) else if 0 < length ls then Some (ls ! 0) else None)"

definition WwdLoader_parse :: "byte list \<Rightarrow> error + WwdLevel" where
  "WwdLoader_parse raw =
     and_then (getUint32 raw 0x00 False) (\<lambda>magic.
     (let magicStr = fromCharCode [stored (byte_at raw 0), stored (byte_at raw 1),
                                   stored (byte_at raw 2), stored (byte_at raw 3)] in
      if magic \<noteq> WWD_MAGIC \<and> magicStr \<noteq> ''WORL'' \<and> magicStr \<noteq> ''LEVL''
      then Inl (PlainError magicStr)
      else
        and_then (getUint32 raw 0x04 True) (\<lambda>ver.
        and_then (getUint32 raw 0x08 True) (\<lambda>fl.
        and_then (getInt32 raw 0x2D0 True) (\<lambda>sx.
        and_then (getInt32 raw 0x2D4 True) (\<lambda>sy.
        and_then (getUint32 raw 0x5D8 True) (\<lambda>layerCount.
        and_then (getUint32 raw 0x5DC True) (\<lambda>numObjects.
        and_then (getUint32 raw 0x5E0 True) (\<lambda>layerOffset.
        and_then (getUint32 raw 0x5E4 True) (\<lambda>objectsOffset.
        and_then (parse_layers raw layerOffset [0..<min layerCount MAX_LAYERS]) (\<lambda>ls.
        and_then (parse_objects raw objectsOffset 0 numObjects) (\<lambda>objs.
        and_then (buildCollisionMap (actionLayer ls)) (\<lambda>cm.
           Inr \<lparr>version = ver, level_flags = fl,
                level_name = readString raw 0x10 64,
                author = readString raw 0x50 64,
                birth = readString raw 0x90 64,
                rezFile = readString raw 0xD0 256,
                imageDir = readString raw 0x1D0 128,
                palRez = readString raw 0x250 128,
                startX = sx, startY = sy,
                launchApp = readString raw 0x2D8 128,
                imageSet1 = readString raw 0x358 128,
                imageSet2 = readString raw 0x3D8 128,
                imageSet3 = readString raw 0x458 128,
                imageSet4 = readString raw 0x4D8 128,
                prefix1 = readString raw 0x558 32,
                prefix2 = readString raw 0x578 32,
                prefix3 = readString raw 0x598 32,
                prefix4 = readString raw 0x5B8 32,
                layers = ls, objects = objs, collisionMap = cm\<rparr>)))))))))))))"

text \<open>
  For stating the properties: whether the signature check of \<open>parse\<close> accepts a
  buffer, and the classification of a tile index in the words of the specification
  (negative: empty; otherwise solid if the sign bit is set or the value is zero; every
  other value passable).
\<close>

definition wwd_signature_ok :: "byte list \<Rightarrow> bool" where
  "wwd_signature_ok raw =
     (getUint32 raw 0x00 False = Inr WWD_MAGIC \<or>
      fromCharCode [stored (byte_at raw 0), stored (byte_at raw 1),
                    stored (byte_at raw 2), stored (byte_at raw 3)] = ''WORL'' \<or>
      fromCharCode [stored (byte_at raw 0), stored (byte_at raw 1),
                    stored (byte_at raw 2), stored (byte_at raw 3)] = ''LEVL'')"

definition tile_attribute :: "32 word \<Rightarrow> TileAttribute" where
  "tile_attribute t =
     (if sint t < 0 then Empty
      else if (t AND 0x80000000) \<noteq> 0 \<or> t = 0 then Solid
      else Empty)"


section \<open>parsers/RezLoader.ts\<close>

definition REZ_VERSION :: nat where "REZ_VERSION = 1"
definition DIRECTORY_FLAG :: byte where "DIRECTORY_FLAG = 0x01"

text \<open>
  File and directory entries. A JavaScript \<open>Map\<close> is an association list in insertion
  order; \<open>map_set\<close> replaces the value of a key in place or appends a new key.
  Field names carry a prefix where other records have fields of the same name.
\<close>

record RezFileEntry =
  file_name :: string
  file_path :: string
  file_extension :: string
  file_offset :: nat
  file_size :: nat
  file_time :: nat

datatype RezDirectoryEntry =
  RezDirectoryEntry (dir_name: string) (dir_path: string)
    (dir_files: "(string \<times> RezFileEntry) list")
    (dir_directories: "(string \<times> RezDirectoryEntry) list")

fun map_set :: "'k \<Rightarrow> 'v \<Rightarrow> ('k \<times> 'v) list \<Rightarrow> ('k \<times> 'v) list" where
  "map_set k v [] = [(k, v)]"
| "map_set k v ((k', v') # rest) =
     (if k' = k then (k, v) # rest else (k', v') # map_set k v rest)"

record RezArchive =
  rez_version :: nat
  fs :: RezDirectoryEntry
  fileCount :: nat

text \<open>
  \<open>readNullString\<close> is the same function as \<open>readString\<close> of the level parser.
  \<open>toUpperCase\<close> is modelled on the ASCII letters (the Unicode case mapping of other
  characters is not modelled); it is applied to the bytes of a name.
\<close>

definition name_bytes :: "byte list \<Rightarrow> nat \<Rightarrow> nat \<Rightarrow> byte list" where
  "name_bytes raw offset maxLen =
     takeWhile (\<lambda>b. b \<noteq> 0) (slice raw offset (min (offset + maxLen) (length raw)))"

definition readNullString :: "byte list \<Rightarrow> nat \<Rightarrow> nat \<Rightarrow> string" where
  "readNullString raw offset maxLen = fromCharCode (name_bytes raw offset maxLen)"

definition upper_byte :: "byte \<Rightarrow> byte" where
  "upper_byte b = (if 0x61 \<le> b \<and> b \<le> 0x7A then b - 0x20 else b)"

definition toUpperCase :: "byte list \<Rightarrow> string" where
  "toUpperCase bs = fromCharCode (map upper_byte bs)"

text \<open>
  \<open>parseDirectory(dir, entryOffset)\<close>: the state is the directory being filled and the
  running \<open>fileCount\<close>. The loop follows the sibling offsets and the function recurses
  into directories, so on a buffer whose offsets form a cycle it does not return
  (\<open>None\<close>). The reads of an entry header lie within the 20 bytes checked at the top of
  the loop body and cannot throw.
\<close>

partial_function (option) parseDirectory ::
  "byte list \<Rightarrow> RezDirectoryEntry \<times> nat \<Rightarrow> nat \<Rightarrow> (RezDirectoryEntry \<times> nat) option" where
  "parseDirectory raw st offset =
     (if offset \<noteq> 0 \<and> offset < length raw then
        (if offset + 0x14 > length raw then Some st
         else
           (let dir = fst st;
                nextOffset = unat (le32 raw (offset + 0x00));
                dataOffset = unat (le32 raw (offset + 0x04));
                dataSize = unat (le32 raw (offset + 0x08));
                timestamp = unat (le32 raw (offset + 0x0C));
                flags = raw ! (offset + 0x10);
                nameLen = unat (raw ! (offset + 0x11));
                extLen = unat (raw ! (offset + 0x12));
                nameStart = offset + 0x14;
                name = readNullString raw nameStart nameLen;
                upper = toUpperCase (name_bytes raw nameStart nameLen);
                ext = (if extLen > 0 then toUpperCase (name_bytes raw (nameStart + nameLen) extLen)
                       else []);
                childPath = (if dir_path dir = ''/'' then ''/'' @ name
                             else dir_path dir @ ''/'' @ name)
            in if flags = DIRECTORY_FLAG then
                 (if dataOffset \<noteq> 0 then
                    Option.bind
                      (parseDirectory raw (RezDirectoryEntry name childPath [] [], snd st) dataOffset)
                      (\<lambda>child.
                         parseDirectory raw
                           (RezDirectoryEntry (dir_name dir) (dir_path dir) (dir_files dir)
                              (map_set upper (fst child) (dir_directories dir)),
                            snd child)
                           nextOffset)
                  else
                    parseDirectory raw
                      (RezDirectoryEntry (dir_name dir) (dir_path dir) (dir_files dir)
                         (map_set upper (RezDirectoryEntry name childPath [] [])
                            (dir_directories dir)),
                       snd st)
                      nextOffset)
               else
                 parseDirectory raw
                   (RezDirectoryEntry (dir_name dir) (dir_path dir)
                      (map_set upper
                         \<lparr>file_name = name, file_path = childPath, file_extension = ext,
                          file_offset = dataOffset, file_size = dataSize,
                          file_time = timestamp\<rparr>
                         (dir_files dir))
                      (dir_directories dir),
                    snd st + 1)
                   nextOffset))
      else Some st)"

text \<open>
  \<open>parse(buffer)\<close>. The version warning has no effect on the result. The result is
  \<open>None\<close> when the directory traversal does not return. The archive object keeps the
  buffer for \<open>readFile\<close>; the model keeps the version, the tree and the file count.
\<close>

definition RezLoader_parse :: "byte list \<Rightarrow> (error + RezArchive) option" where
  "RezLoader_parse raw =
     (case getUint32 raw 0 False of
        Inl e \<Rightarrow> Some (Inl e)
      | Inr magic \<Rightarrow>
          (let magicStr = fromCharCode
                 [stored (byte_at raw 0), stored (byte_at raw 1), stored (byte_at raw 2)] in
           if magicStr \<noteq> ''REZ'' \<and> magicStr \<noteq> ''rez''
           then Some (Inl (RezParseError magicStr))
           else
             (case getUint32 raw 0x04 True of
                Inl e \<Rightarrow> Some (Inl e)
              | Inr ver \<Rightarrow>
                  (case getUint32 raw 0x08 True of
                     Inl e \<Rightarrow> Some (Inl e)
                   | Inr rootOffset \<Rightarrow>
                       map_option
                         (\<lambda>r. Inr \<lparr>rez_version = ver, fs = fst r, fileCount = snd r\<rparr>)
                         (parseDirectory raw (RezDirectoryEntry [] ''/'' [] [], 0) rootOffset)))))"

text \<open>\<open>load\<close> hands the buffer of its source to \<open>parse\<close>.\<close>

definition RezLoader_load :: "byte list \<Rightarrow> (error + RezArchive) option" where
  "RezLoader_load source = RezLoader_parse source"

text \<open>
  "The 3 bytes at offset 0 spell REZ case-insensitively", in the words of the
  specification: each byte is a letter of "REZ" in its upper- or lower-case form.
\<close>

definition spells_REZ_case_insensitively :: "byte list \<Rightarrow> bool" where
  "spells_REZ_case_insensitively raw = (map upper_byte (take 3 raw) = [0x52, 0x45, 0x5A])"

text \<open>
  An archive with one file for the example below: the header "REZ", version 1, root
  offset 20; one file node named "A.TXT" with extension "TXT" whose 4 bytes of payload
  "DATA" are at offset 50.
\<close>

definition one_file_archive :: "byte list" where
  "one_file_archive =
     [0x52, 0x45, 0x5A, 0x00,  1, 0, 0, 0,  20, 0, 0, 0,  0, 0, 0, 0,  0, 0, 0, 0] @
     [0, 0, 0, 0,  50, 0, 0, 0,  4, 0, 0, 0,  0, 0, 0, 0,  0, 6, 4, 0] @
     [0x41, 0x2E, 0x54, 0x58, 0x54, 0x00] @ [0x54, 0x58, 0x54, 0x00] @
     [0x44, 0x41, 0x54, 0x41]"

section \<open>Properties of the collision grid\<close>

lemma cell_index_bound:
  fixes c r w h :: int
  assumes "0 \<le> c" "c < w" "0 \<le> r" "r < h"
  shows "0 \<le> r * w + c \<and> r * w + c < w * h"
proof -
  have "r * w + c < r * w + w" using assms by simp
  also have "\<dots> = (r + 1) * w" by (simp add: algebra_simps)
  also have "\<dots> \<le> h * w" using assms by (intro mult_right_mono) auto
  finally have "r * w + c < w * h" by (simp add: mult.commute)
  moreover have "0 \<le> r * w + c" using assms by simp
  ultimately show ?thesis by simp
qed

lemma cell_index_inj:
  fixes c r c' r' w :: int
  assumes "0 \<le> c" "c < w" "0 \<le> c'" "c' < w" "r * w + c = r' * w + c'"
  shows "c = c' \<and> r = r'"
proof -
  have "c = (r * w + c) mod w" using assms(1,2) by simp
  also have "\<dots> = (r' * w + c') mod w" using assms(5) by simp
  also have "\<dots> = c'" using assms(3,4) by simp
  finally have c: "c = c'" .
  have "r = (r * w + c) div w" using assms(1,2) by simp
  also have "\<dots> = (r' * w + c') div w" using assms(5) by simp
  also have "\<dots> = r'" using assms(3,4) by simp
  finally have "r = r'" .
  with c show ?thesis ..
qed

lemma TileCollisionMap_new_wf:
  "TileCollisionMap_new w h ts = Inr m \<Longrightarrow> wf_tcm m \<and> cols m = w \<and> rows m = h \<and> tileSize m = ts"
  by (auto simp: TileCollisionMap_new_def wf_tcm_def split: if_splits)

lemma set_tcm_shape [simp]:
  "cols (set_tcm m c r a) = cols m" "rows (set_tcm m c r a) = rows m"
  "tileSize (set_tcm m c r a) = tileSize m"
  "length (data (set_tcm m c r a)) = length (data m)"
  by (simp_all add: set_tcm_def)

lemma set_tcm_wf: "wf_tcm m \<Longrightarrow> wf_tcm (set_tcm m c r a)"
  by (simp add: wf_tcm_def)

lemma get_tcm_out_of_range:
  "col < 0 \<or> cols m \<le> col \<or> row < 0 \<or> rows m \<le> row \<Longrightarrow> get_tcm m col row = Some Solid"
  by (auto simp: get_tcm_def Solid_def)

lemma get_tcm_defined:
  assumes "wf_tcm m" "0 \<le> col" "col < cols m" "0 \<le> row" "row < rows m"
  shows "get_tcm m col row = Some (data m ! nat (row * cols m + col))"
proof -
  have "row * cols m + col < cols m * rows m" "0 \<le> row * cols m + col"
    using cell_index_bound [OF assms(2-5)] by simp_all
  then have "nat (row * cols m + col) < length (data m)"
    using assms(1) by (simp add: wf_tcm_def)
  then show ?thesis using assms by (simp add: get_tcm_def)
qed

lemma get_set_tcm_same:
  assumes "wf_tcm m" "0 \<le> col" "col < cols m" "0 \<le> row" "row < rows m"
  shows "get_tcm (set_tcm m col row a) col row = Some a"
proof -
  have "row * cols m + col < cols m * rows m" "0 \<le> row * cols m + col"
    using cell_index_bound [OF assms(2-5)] by simp_all
  then have "nat (row * cols m + col) < length (data m)"
    using assms(1) by (simp add: wf_tcm_def)
  then show ?thesis using assms by (simp add: get_tcm_def set_tcm_def)
qed

lemma get_set_tcm_other:
  assumes "0 \<le> col" "col < cols m" "0 \<le> row" "row < rows m" "(c', r') \<noteq> (col, row)"
  shows "get_tcm (set_tcm m c' r' a) col row = get_tcm m col row"
proof (cases "c' < 0 \<or> cols m \<le> c' \<or> r' < 0 \<or> rows m \<le> r'")
  case True
  then show ?thesis by (auto simp: set_tcm_def)
next
  case False
  then have in': "0 \<le> c'" "c' < cols m" "0 \<le> r'" "r' < rows m" by auto
  have "r' * cols m + c' \<noteq> row * cols m + col"
    using cell_index_inj [OF in'(1,2) assms(1,2), of r' row] assms(5) by auto
  moreover have "0 \<le> r' * cols m + c'" "0 \<le> row * cols m + col"
    using in' assms by simp_all
  ultimately have "nat (r' * cols m + c') \<noteq> nat (row * cols m + col)" by simp
  then show ?thesis using False assms by (simp add: get_tcm_def set_tcm_def)
qed

lemma apply_sets_Cons: "apply_sets m ((c, r, a) # ops) = apply_sets (set_tcm m c r a) ops"
  by (simp add: apply_sets_def)

lemma last_set_Cons:
  "last_set v ((c, r, a) # ops) col row = last_set (if c = col \<and> r = row then a else v) ops col row"
  by (simp add: last_set_def)

lemma apply_sets_shape:
  "wf_tcm m \<Longrightarrow> wf_tcm (apply_sets m ops) \<and> cols (apply_sets m ops) = cols m \<and> rows (apply_sets m ops) = rows m"
proof (induction ops arbitrary: m)
  case Nil
  then show ?case by (simp add: apply_sets_def)
next
  case (Cons op ops)
  obtain c r a where op: "op = (c, r, a)" by (cases op)
  show ?case using Cons.IH [of "set_tcm m c r a"] Cons.prems
    by (simp only: op apply_sets_Cons set_tcm_wf set_tcm_shape)
qed

lemma data_set_tcm_cell:
  assumes "wf_tcm m" "0 \<le> col" "col < cols m" "0 \<le> row" "row < rows m"
  shows "data (set_tcm m c r a) ! nat (row * cols m + col) =
         (if c = col \<and> r = row then a else data m ! nat (row * cols m + col))"
proof -
  have wf: "wf_tcm (set_tcm m c r a)" using assms(1) by (rule set_tcm_wf)
  have rng: "0 \<le> col" "col < cols (set_tcm m c r a)" "0 \<le> row" "row < rows (set_tcm m c r a)"
    using assms by simp_all
  have new: "get_tcm (set_tcm m c r a) col row = Some (data (set_tcm m c r a) ! nat (row * cols m + col))"
    using get_tcm_defined [OF wf rng] by simp
  show ?thesis
  proof (cases "c = col \<and> r = row")
    case True
    then show ?thesis using new get_set_tcm_same [OF assms, of a] by simp
  next
    case False
    then have "(c, r) \<noteq> (col, row)" by simp
    from get_set_tcm_other [OF assms(2-5) this, of a] new get_tcm_defined [OF assms]
    have "data (set_tcm m c r a) ! nat (row * cols m + col) = data m ! nat (row * cols m + col)"
      by simp
    with False show ?thesis by auto
  qed
qed

lemma get_apply_sets:
  assumes "wf_tcm m" "0 \<le> col" "col < cols m" "0 \<le> row" "row < rows m"
  shows "get_tcm (apply_sets m ops) col row =
         Some (last_set (data m ! nat (row * cols m + col)) ops col row)"
  using assms
proof (induction ops arbitrary: m)
  case Nil
  then show ?case by (simp add: apply_sets_def last_set_def get_tcm_defined)
next
  case (Cons op ops)
  obtain c r a where op: "op = (c, r, a)" by (cases op)
  let ?m = "set_tcm m c r a"
  have wf: "wf_tcm ?m" using Cons.prems(1) by (rule set_tcm_wf)
  have "get_tcm (apply_sets ?m ops) col row =
            Some (last_set (data ?m ! nat (row * cols ?m + col)) ops col row)"
    using Cons.IH [OF wf] Cons.prems by simp
  then show ?case
    by (simp only: op apply_sets_Cons last_set_Cons set_tcm_shape data_set_tcm_cell [OF Cons.prems])
qed





text \<open>
  Claim C6. For a grid made by the constructor and any history of \<open>set\<close> calls,
  \<open>get(col, row)\<close> is Solid whenever \<open>(col, row)\<close> lies outside
  \<open>[0, width) \<times> [0, height)\<close>, and for an in-range cell it is exactly the attribute last
  set at that cell, Empty if the cell was never set.
\<close>

theorem tcm_get_spec:
  assumes "TileCollisionMap_new w h ts = Inr m0"
  shows "get_tcm (apply_sets m0 ops) col row =
     (if col < 0 \<or> w \<le> col \<or> row < 0 \<or> h \<le> row then Some Solid
      else Some (last_set Empty ops col row))"
proof -
  have m0: "wf_tcm m0" "cols m0 = w" "rows m0 = h"
    using TileCollisionMap_new_wf [OF assms] by simp_all
  show ?thesis
  proof (cases "col < 0 \<or> w \<le> col \<or> row < 0 \<or> h \<le> row")
    case True
    then show ?thesis
      using get_tcm_out_of_range [of col "apply_sets m0 ops" row] apply_sets_shape [OF m0(1), of ops] m0
      by simp
  next
    case False
    then have rng: "0 \<le> col" "col < cols m0" "0 \<le> row" "row < rows m0" using m0 by auto
    have "row * w + col < w * h" "0 \<le> row * w + col"
      using cell_index_bound [of col w row h] rng m0 by simp_all
    then have "data m0 ! nat (row * cols m0 + col) = Empty"
      using assms by (auto simp: TileCollisionMap_new_def Empty_def split: if_splits)
    then show ?thesis using get_apply_sets [OF m0(1) rng, of ops] False by simp
  qed
qed

text \<open>
  A 2 by 2 grid: a cell set twice returns the later value, a \<open>set\<close> out of range is
  ignored, an untouched cell is Empty, and a lookup out of range is Solid.
\<close>

theorem tcm_get_spec_witness:
  "TileCollisionMap_new 2 2 64 = Inr \<lparr>data = [0, 0, 0, 0], cols = 2, rows = 2, tileSize = 64\<rparr> \<and>
   get_tcm (apply_sets \<lparr>data = [0, 0, 0, 0], cols = 2, rows = 2, tileSize = 64\<rparr>
              [(1, 0, Ladder), (5, 5, Ladder), (1, 0, OneWayPlatform)]) 1 0 = Some OneWayPlatform \<and>
   get_tcm (apply_sets \<lparr>data = [0, 0, 0, 0], cols = 2, rows = 2, tileSize = 64\<rparr>
              [(1, 0, Ladder), (5, 5, Ladder), (1, 0, OneWayPlatform)]) 0 1 = Some Empty \<and>
   get_tcm (apply_sets \<lparr>data = [0, 0, 0, 0], cols = 2, rows = 2, tileSize = 64\<rparr>
              [(1, 0, Ladder), (5, 5, Ladder), (1, 0, OneWayPlatform)]) 2 0 = Some Solid"
proof -
  have new: "TileCollisionMap_new 2 2 64 = Inr \<lparr>data = [0, 0, 0, 0], cols = 2, rows = 2, tileSize = 64\<rparr>"
    by (simp add: TileCollisionMap_new_def numeral_eq_Suc)
  show ?thesis
    using new tcm_get_spec [OF new, of "[(1, 0, Ladder), (5, 5, Ladder), (1, 0, OneWayPlatform)]" 1 0]
      tcm_get_spec [OF new, of "[(1, 0, Ladder), (5, 5, Ladder), (1, 0, OneWayPlatform)]" 0 1]
      tcm_get_spec [OF new, of "[(1, 0, Ladder), (5, 5, Ladder), (1, 0, OneWayPlatform)]" 2 0]
    by (simp add: last_set_def)
qed

section \<open>Properties of the buffer readers\<close>

lemma byte_of_char: "char_of (unat (b :: 8 word)) = c \<longleftrightarrow> b = of_char c"
proof
  assume "char_of (unat b) = c"
  then have "(of_char c :: nat) = unat b mod 256" by auto
  moreover have "unat b < 256" using unsigned_less [of b, where 'a = nat] by simp
  ultimately have "(of_char c :: nat) = unat b" by simp
  then have "(of_nat (of_char c) :: 8 word) = of_nat (unat b)" by simp
  then show "b = of_char c" by (simp add: of_nat_of_char)
next
  assume "b = of_char c"
  then have "unat b = unat (of_nat (of_char c :: nat) :: 8 word)" by (simp add: of_nat_of_char)
  also have "\<dots> = (of_char c :: nat) mod 256" by (simp add: unat_of_nat)
  also have "\<dots> = of_char c" by simp
  finally show "char_of (unat b) = c" by simp
qed

lemma fromCharCode_eq: "fromCharCode bs = s \<longleftrightarrow> bs = map of_char s"
  unfolding fromCharCode_def
proof (induction bs arbitrary: s)
  case Nil
  then show ?case by auto
next
  case (Cons b bs)
  then show ?case by (cases s) (auto simp: byte_of_char)
qed


lemma getUint32_in_range:
  "off + 4 \<le> length raw \<Longrightarrow> \<exists>v. getUint32 raw off le = Inr v"
  by (simp add: getUint32_def)

lemma getInt32_in_range:
  "off + 4 \<le> length raw \<Longrightarrow> \<exists>v. getInt32 raw off le = Inr v"
  by (simp add: getInt32_def getUint32_def)

lemma and_then_Inr_eq [simp]: "and_then (Inr v) f = f v"
  by (simp add: and_then_def)

lemma and_then_Inl_eq [simp]: "and_then (Inl e) f = Inl e"
  by (simp add: and_then_def)

lemma and_then_total:
  "\<exists>v. r = Inr v \<Longrightarrow> (\<And>v. \<exists>y. f v = Inr y) \<Longrightarrow> \<exists>y. and_then r f = Inr y"
  by auto

lemma and_then_not_Inr: "(\<And>v. f v \<noteq> Inr y) \<Longrightarrow> and_then r f \<noteq> Inr y"
  by (cases r) simp_all

lemma getUint32_Inl:
  "getUint32 raw off le = Inl e \<longleftrightarrow> e = RangeError \<and> length raw < off + 4"
  by (auto simp: getUint32_def)

section \<open>Properties of the physics step\<close>

subsection \<open>The loop of \<open>update\<close> processes each entity once\<close>






subsection \<open>Gravity\<close>


subsection \<open>Axis resolution\<close>






subsection \<open>A whole step on a ladder\<close>





subsection \<open>Ground flag and landing event\<close>




section \<open>Properties of the simulation clock\<close>









section \<open>Properties of the sprite frame decoder\<close>

subsection \<open>Run-length decoding\<close>

lemma run_loop_result:
  "d \<le> e \<Longrightarrow> length out = e \<Longrightarrow>
   run_loop k v e (out, d) =
     (take d out @ replicate (min k (e - d)) v @ drop (d + min k (e - d)) out, d + min k (e - d))"
proof (induction k arbitrary: out d)
  case 0
  then show ?case by simp
next
  case (Suc k)
  show ?case
  proof (cases "d < e")
    case False
    then show ?thesis using Suc.prems by simp
  next
    case True
    let ?out = "out[d := v]"
    have ih: "run_loop k v e (?out, Suc d) =
       (take (Suc d) ?out @ replicate (min k (e - Suc d)) v @ drop (Suc d + min k (e - Suc d)) ?out,
        Suc d + min k (e - Suc d))"
      by (rule Suc.IH) (use True Suc.prems in simp_all)
    have m: "min (Suc k) (e - d) = Suc (min k (e - Suc d))" using True by arith
    have t: "take (Suc d) ?out = take d out @ [v]"
      using True Suc.prems by (simp add: take_Suc_conv_app_nth)
    show ?thesis using True by (simp add: ih m t)
  qed
qed

lemma literal_loop_result:
  "d \<le> e \<Longrightarrow> length out = e \<Longrightarrow>
   literal_loop k src e (out, s, d) =
     (let m = min k (min (e - d) (length src - s))
      in (take d out @ take m (drop s src) @ drop (d + m) out, s + m, d + m))"
proof (induction k arbitrary: out s d)
  case 0
  then show ?case by simp
next
  case (Suc k)
  show ?case
  proof (cases "d < e \<and> s < length src")
    case False
    then show ?thesis using Suc.prems by (auto simp: Let_def)
  next
    case True
    let ?out = "out[d := src ! s]"
    let ?m = "min k (min (e - Suc d) (length src - Suc s))"
    have ih: "literal_loop k src e (?out, Suc s, Suc d) =
       (take (Suc d) ?out @ take ?m (drop (Suc s) src) @ drop (Suc d + ?m) ?out, Suc s + ?m, Suc d + ?m)"
      using Suc.IH [of "Suc d" ?out "Suc s"] True Suc.prems by (simp add: Let_def)
    have m: "min (Suc k) (min (e - d) (length src - s)) = Suc ?m" using True by arith
    have t: "take (Suc d) ?out = take d out @ [src ! s]"
      using True Suc.prems by (simp add: take_Suc_conv_app_nth)
    have ts: "take (Suc ?m) (drop s src) = src ! s # take ?m (drop (Suc s) src)"
      using True by (simp add: Cons_nth_drop_Suc [symmetric])
    show ?thesis using True
      by (simp add: ih m t ts Let_def del: take_Suc_Cons)
  qed
qed

lemma pad_Nil [simp]: "pad n [] = replicate n 0"
  by (simp add: pad_def)

lemma pad_0 [simp]: "pad 0 xs = []"
  by (simp add: pad_def)

lemma length_pad [simp]: "length (pad n xs) = n"
  by (simp add: pad_def)

lemma pad_append: "length A \<le> n \<Longrightarrow> pad n (A @ B) = A @ pad (n - length A) B"
  by (simp add: pad_def)

lemma pad_append_ge: "n \<le> length A \<Longrightarrow> pad n (A @ B) = take n A"
  by (simp add: pad_def)


lemma rle_expand_run:
  "s < length src \<Longrightarrow> src ! s \<le> 0x7F \<Longrightarrow>
   rle_expand (drop s src) =
     (if Suc s < length src
      then replicate (unat (src ! s) + 1) (src ! Suc s) @ rle_expand (drop (Suc (Suc s)) src)
      else [])"
proof -
  assume a: "s < length src" "src ! s \<le> 0x7F"
  have d: "drop s src = src ! s # drop (Suc s) src" using a(1) by (simp add: Cons_nth_drop_Suc)
  show ?thesis
  proof (cases "Suc s < length src")
    case True
    then have "drop (Suc s) src = src ! Suc s # drop (Suc (Suc s)) src"
      by (simp add: Cons_nth_drop_Suc)
    then show ?thesis using a True by (simp add: d)
  next
    case False
    then have "drop (Suc s) src = []" by simp
    then show ?thesis using a False by (simp add: d)
  qed
qed

lemma rle_expand_literal:
  "s < length src \<Longrightarrow> \<not> src ! s \<le> 0x7F \<Longrightarrow>
   rle_expand (drop s src) =
     take (unat (src ! s) - 0x80 + 1) (drop (Suc s) src) @
     rle_expand (drop (Suc s + (unat (src ! s) - 0x80 + 1)) src)"
proof -
  assume a: "s < length src" "\<not> src ! s \<le> 0x7F"
  have d: "drop s src = src ! s # drop (Suc s) src" using a(1) by (simp add: Cons_nth_drop_Suc)
  show ?thesis using a by (simp add: d add.commute)
qed

lemma pad_literal:
  assumes "m = min k (min n (length rest))"
  shows "pad n (take k rest @ rle_expand (drop k rest)) =
         take m rest @ pad (n - m) (rle_expand (drop m rest))"
proof (cases "k \<le> n \<and> k \<le> length rest")
  case True
  then have "m = k" using assms by simp
  then show ?thesis using True by (simp add: pad_append)
next
  case False
  show ?thesis
  proof (cases "n \<le> length rest")
    case True
    then have m: "m = n" and "n \<le> k" using assms False by auto
    then have "n \<le> length (take k rest)" using True by simp
    then have "pad n (take k rest @ rle_expand (drop k rest)) = take n (take k rest)"
      by (rule pad_append_ge)
    then show ?thesis using m \<open>n \<le> k\<close> by (simp add: min_absorb1)
  next
    case False2: False
    then have m: "m = length rest" and kl: "length rest \<le> k" using assms False by auto
    then show ?thesis using False2 by (simp add: pad_def)
  qed
qed

lemma rle_loop_spec:
  "length (fst st) = e \<Longrightarrow> snd (snd st) \<le> e \<Longrightarrow>
   drop (snd (snd st)) (fst st) = replicate (e - snd (snd st)) 0 \<Longrightarrow>
   fst (rle_loop src e st) =
     take (snd (snd st)) (fst st) @ pad (e - snd (snd st)) (rle_expand (drop (fst (snd st)) src))"
proof (induction src e st rule: rle_loop.induct)
  case (1 src e out s d)
  from "1.prems" have len: "length out = e" and de: "d \<le> e"
    and z: "drop d out = replicate (e - d) 0"
    by simp_all
  show ?case
  proof (cases "d < e \<and> s < length src")
    case False
    have r: "rle_loop src e (out, s, d) = (out, s, d)"
      by (subst rle_loop.simps) (simp only: False if_False)
    have "take d out @ pad (e - d) (rle_expand (drop s src)) = out"
    proof (cases "d < e")
      case True
      then have "drop s src = []" using False by simp
      then have "pad (e - d) (rle_expand (drop s src)) = drop d out" using z by simp
      then show ?thesis by simp
    next
      case False
      then show ?thesis using de len by simp
    qed
    then show ?thesis by (simp add: r)
  next
    case True
    show ?thesis
    proof (cases "src ! s \<le> 0x7F")
      case run: True
      define k where "k = unat (src ! s) + 1"
      define v where "v = stored (byte_at src (s + 1))"
      define m where "m = min k (e - d)"
      define out1 where "out1 = take d out @ replicate m v @ drop (d + m) out"
      have rl: "run_loop k v e (out, d) = (out1, d + m)"
        unfolding out1_def m_def using run_loop_result [OF de len] .
      have m_le: "d + m \<le> e" using de by (simp add: m_def)
      have len1: "length out1 = e" using len de m_le by (simp add: out1_def)
      have tk: "take (d + m) out1 = take d out @ replicate m v"
        using len de by (simp add: out1_def)
      have "drop (d + m) out1 = drop (d + m) out" using len de by (simp add: out1_def)
      also have "\<dots> = drop m (drop d out)" by (simp add: add.commute)
      also have "\<dots> = replicate (e - (d + m)) 0" by (simp add: z)
      finally have z1: "drop (d + m) out1 = replicate (e - (d + m)) 0" .
      have ih: "fst (rle_loop src e (out1, s + 1 + 1, d + m)) =
          take (d + m) out1 @ pad (e - (d + m)) (rle_expand (drop (s + 1 + 1) src))"
      proof -
        have "fst (rle_loop src e (out1, s + 1 + 1, d + m)) =
          take (snd (snd (out1, s + 1 + 1, d + m))) (fst (out1, s + 1 + 1, d + m)) @
          pad (e - snd (snd (out1, s + 1 + 1, d + m)))
            (rle_expand (drop (fst (snd (out1, s + 1 + 1, d + m))) src))"
        proof (rule "1.IH"(1) [OF True refl refl run refl refl refl refl])
          show "(out1, d + m) = run_loop (unat (src ! s) + 1) (stored (byte_at src (s + 1))) e (out, d)"
            using rl by (simp add: k_def v_def)
          show "length (fst (out1, s + 1 + 1, d + m)) = e" using len1 by simp
          show "snd (snd (out1, s + 1 + 1, d + m)) \<le> e" using m_le by simp
          show "drop (snd (snd (out1, s + 1 + 1, d + m))) (fst (out1, s + 1 + 1, d + m)) =
            replicate (e - snd (snd (out1, s + 1 + 1, d + m))) 0" using z1 by simp
        qed
        then show ?thesis by simp
      qed
      have step: "rle_loop src e (out, s, d) = rle_loop src e (out1, s + 1 + 1, d + m)"
        using True run rl by (subst rle_loop.simps) (simp add: Let_def k_def v_def)
      have padfact: "pad (e - d) (rle_expand (drop s src)) =
            replicate m v @ pad (e - (d + m)) (rle_expand (drop (s + 1 + 1) src))"
      proof (cases "Suc s < length src")
        case vt: True
        then have sv: "v = src ! Suc s" by (simp add: v_def stored_def byte_at_def)
        have ex: "rle_expand (drop s src) = replicate k v @ rle_expand (drop (s + 1 + 1) src)"
          using rle_expand_run [of s src] True run vt by (simp add: k_def sv)
        show ?thesis
        proof (cases "k \<le> e - d")
          case True
          then have "m = k" by (simp add: m_def)
          then show ?thesis
            unfolding ex using pad_append [of "replicate k v" "e - d"] True by simp
        next
          case False
          then have mm: "m = e - d" by (simp add: m_def)
          have "e - d \<le> length (replicate k v)" using False by simp
          then have "pad (e - d) (replicate k v @ rle_expand (drop (s + 1 + 1) src)) =
                take (e - d) (replicate k v)" by (rule pad_append_ge)
          then show ?thesis unfolding ex using False mm by (simp add: min_absorb1)
        qed
      next
        case nv: False
        then have sv: "v = 0" by (simp add: v_def stored_def byte_at_def)
        have ex: "rle_expand (drop s src) = []"
          using rle_expand_run [of s src] True run nv by simp
        have "drop (s + 1 + 1) src = []" using nv by simp
        then show ?thesis unfolding sv ex using m_le by (simp add: replicate_add [symmetric])
      qed
      have "fst (rle_loop src e (out, s, d)) =
            (take d out @ replicate m v) @ pad (e - (d + m)) (rle_expand (drop (s + 1 + 1) src))"
        unfolding step ih tk ..
      also have "\<dots> = take d out @ pad (e - d) (rle_expand (drop s src))"
        unfolding padfact by simp
      finally show ?thesis by simp
    next
      case lit: False
      define k where "k = unat (src ! s) - 0x80 + 1"
      define rest where "rest = drop (s + 1) src"
      define m where "m = min k (min (e - d) (length src - (s + 1)))"
      define out1 where "out1 = take d out @ take m rest @ drop (d + m) out"
      have ll: "literal_loop k src e (out, s + 1, d) = (out1, s + 1 + m, d + m)"
        unfolding out1_def m_def rest_def
        using literal_loop_result [OF de len, of k src "s + 1"] by (simp add: Let_def)
      have m_le: "d + m \<le> e" using de by (simp add: m_def)
      have lm: "length (take m rest) = m" by (simp add: m_def rest_def)
      have len1: "length out1 = e" using len de m_le lm by (simp add: out1_def)
      have tk: "take (d + m) out1 = take d out @ take m rest"
        using len de lm by (simp add: out1_def)
      have "drop (d + m) out1 = drop (d + m) out" using len de lm by (simp add: out1_def)
      also have "\<dots> = drop m (drop d out)" by (simp add: add.commute)
      also have "\<dots> = replicate (e - (d + m)) 0" by (simp add: z)
      finally have z1: "drop (d + m) out1 = replicate (e - (d + m)) 0" .
      have ih: "fst (rle_loop src e (out1, s + 1 + m, d + m)) =
          take (d + m) out1 @ pad (e - (d + m)) (rle_expand (drop (s + 1 + m) src))"
      proof -
        have "fst (rle_loop src e (literal_loop (unat (src ! s) - 128 + 1) src e (out, s + 1, d))) =
          take (snd (snd (literal_loop (unat (src ! s) - 128 + 1) src e (out, s + 1, d))))
            (fst (literal_loop (unat (src ! s) - 128 + 1) src e (out, s + 1, d))) @
          pad (e - snd (snd (literal_loop (unat (src ! s) - 128 + 1) src e (out, s + 1, d))))
            (rle_expand (drop (fst (snd (literal_loop (unat (src ! s) - 128 + 1) src e (out, s + 1, d)))) src))"
        proof (rule "1.IH"(2) [OF True refl refl lit refl])
          show "length (fst (literal_loop (unat (src ! s) - 128 + 1) src e (out, s + 1, d))) = e"
            unfolding k_def [symmetric] ll using len1 by simp
          show "snd (snd (literal_loop (unat (src ! s) - 128 + 1) src e (out, s + 1, d))) \<le> e"
            unfolding k_def [symmetric] ll using m_le by simp
          show "drop (snd (snd (literal_loop (unat (src ! s) - 128 + 1) src e (out, s + 1, d))))
              (fst (literal_loop (unat (src ! s) - 128 + 1) src e (out, s + 1, d))) =
            replicate (e - snd (snd (literal_loop (unat (src ! s) - 128 + 1) src e (out, s + 1, d)))) 0"
            unfolding k_def [symmetric] ll using z1 by simp
        qed
        then show ?thesis unfolding k_def [symmetric] ll by simp
      qed
      have step: "rle_loop src e (out, s, d) = rle_loop src e (out1, s + 1 + m, d + m)"
        using True lit ll by (subst rle_loop.simps) (simp add: Let_def k_def)
      have ex: "rle_expand (drop s src) = take k rest @ rle_expand (drop k rest)"
        using rle_expand_literal [of s src] True lit by (simp add: k_def rest_def add.commute)
      have m': "m = min k (min (e - d) (length rest))" by (simp add: m_def rest_def)
      have dr: "drop m rest = drop (s + 1 + m) src" by (simp add: rest_def add.commute)
      have padfact: "pad (e - d) (rle_expand (drop s src)) =
            take m rest @ pad (e - d - m) (rle_expand (drop (s + 1 + m) src))"
        unfolding ex dr [symmetric] using m' by (rule pad_literal)
      have "fst (rle_loop src e (out, s, d)) =
            (take d out @ take m rest) @ pad (e - (d + m)) (rle_expand (drop (s + 1 + m) src))"
        unfolding step ih tk ..
      also have "\<dots> = take d out @ pad (e - d) (rle_expand (drop s src))"
        unfolding padfact by simp
      finally show ?thesis by simp
    qed
  qed
qed

lemma rle_example: "decompressRLE [0x02, 0x09, 0x81, 0x07, 0x08] 0 5 = [9, 9, 9, 7, 8]"
  by code_simp

text \<open>
  Claim C3. RLE decoding is a total function of the source bytes and the expected pixel
  count (the loop terminates on every input, and no operation of it can throw). Its result
  is what the decoding rule says: a control byte \<open>C \<le> 0x7F\<close> emits the next single byte
  \<open>C + 1\<close> times, a control byte \<open>C \<ge> 0x80\<close> copies the next \<open>C - 0x80 + 1\<close> bytes
  verbatim, decoding stops when the expected pixel count is reached or the source is
  exhausted, the output has exactly the expected length and every byte not filled is
  zero. The stream \<open>[0x02, 0x09, 0x81, 0x07, 0x08]\<close> with expected count 5 decodes to
  \<open>[9, 9, 9, 7, 8]\<close>.
\<close>

theorem decompressRLE_spec:
  "decompressRLE src srcOffset expectedPixels = rle_spec src srcOffset expectedPixels \<and>
   length (decompressRLE src srcOffset expectedPixels) = expectedPixels \<and>
   drop (length (rle_expand (drop srcOffset src))) (decompressRLE src srcOffset expectedPixels) =
     replicate (expectedPixels - length (rle_expand (drop srcOffset src))) 0 \<and>
   decompressRLE [0x02, 0x09, 0x81, 0x07, 0x08] 0 5 = [9, 9, 9, 7, 8]"
proof -
  have spec: "decompressRLE s off n = rle_spec s off n" for s off n
    using rle_loop_spec [of "(replicate n 0, off, 0)" n s]
    by (simp add: decompressRLE_def rle_spec_def)
  have "length (rle_spec src srcOffset expectedPixels) = expectedPixels"
    by (simp add: rle_spec_def)
  moreover have "drop (length (rle_expand (drop srcOffset src))) (rle_spec src srcOffset expectedPixels) =
     replicate (expectedPixels - length (rle_expand (drop srcOffset src))) 0"
    by (simp add: rle_spec_def pad_def)
  ultimately show ?thesis using rle_example by (simp add: spec)
qed

text \<open>
  Decoding from an offset with the source exhausted early (two trailing zeros), a run cut
  at the expected count, and a literal followed by a run whose byte is missing.
\<close>

theorem decompressRLE_spec_witness:
  "decompressRLE [0x50, 0x49, 0x03, 0x09, 0x85, 0x01, 0x02] 2 8 = [9, 9, 9, 9, 1, 2, 0, 0] \<and>
   decompressRLE [0x03, 0x09, 0x85, 0x01, 0x02] 0 3 = [9, 9, 9] \<and>
   decompressRLE [0x81, 0x07, 0x08, 0x05] 0 6 = [7, 8, 0, 0, 0, 0]"
proof -
  have "rle_spec [0x50, 0x49, 0x03, 0x09, 0x85, 0x01, 0x02] 2 8 = [9, 9, 9, 9, 1, 2, 0, 0]"
    by code_simp
  moreover have "rle_spec [0x03, 0x09, 0x85, 0x01, 0x02] 0 3 = [9, 9, 9]"
    by code_simp
  moreover have "rle_spec [0x81, 0x07, 0x08, 0x05] 0 6 = [7, 8, 0, 0, 0, 0]"
    by code_simp
  ultimately show ?thesis
    using decompressRLE_spec [of "[0x50, 0x49, 0x03, 0x09, 0x85, 0x01, 0x02]" 2 8]
      decompressRLE_spec [of "[0x03, 0x09, 0x85, 0x01, 0x02]" 0 3]
      decompressRLE_spec [of "[0x81, 0x07, 0x08, 0x05]" 0 6]
    by simp
qed

subsection \<open>Palette conversion\<close>



lemma length_rgba_of [simp]: "length (rgba_of ck P idx) = 4"
  by (simp add: rgba_of_def)









section \<open>Properties of the level parser\<close>

subsection \<open>Collision grid derivation\<close>


text \<open>
  No 32-bit value that is not negative has its sign bit set: of the two ways to be solid,
  only "exactly zero" can occur.
\<close>

lemma sign_bit_clear: "0 \<le> sint (t :: 32 word) \<Longrightarrow> t AND 0x80000000 = 0"
proof -
  assume a: "0 \<le> sint t"
  have nb: "\<not> bit t 31" using a bit_last_iff [of t] by simp
  have e: "(0x80000000 :: 32 word) = 2 ^ 31" by simp
  show ?thesis
    unfolding e
  proof (rule bit_eqI)
    fix n
    have b: "bit ((2 :: 32 word) ^ 31) n = (n = 31)"
      by (simp only: bit_exp_iff possible_bit_word) auto
    show "bit (t AND 2 ^ 31) n = bit (0 :: 32 word) n"
      by (simp only: bit_and_iff b) (use nb in auto)
  qed
qed

lemma tile_attribute_zero: "tile_attribute t = (if t = 0 then Solid else Empty)"
  using sign_bit_clear [of t] by (auto simp: tile_attribute_def)






subsection \<open>The two-layer example\<close>










subsection \<open>Levels without layers\<close>

lemma buildCollisionMap_no_layer: "buildCollisionMap (actionLayer []) = Inl TypeError"
  by (simp add: buildCollisionMap_def actionLayer_def)

text \<open>
  The object loop never throws: every record it decodes lies inside the buffer, so each
  of its reads is in range.
\<close>

lemma parseObject_in_range:
  assumes "base + OBJECT_ENTRY_SIZE \<le> length raw"
  shows "\<exists>obj. parseObject raw base = Inr obj"
proof -
  have r: "\<And>off le. off \<le> 356 \<Longrightarrow> \<exists>v. getInt32 raw (base + off) le = Inr v"
    "\<And>off le. off \<le> 356 \<Longrightarrow> \<exists>v. getUint32 raw (base + off) le = Inr v"
    using assms by (auto intro!: getInt32_in_range getUint32_in_range simp: OBJECT_ENTRY_SIZE_def)
  show ?thesis
    unfolding parseObject_def
    by (intro and_then_total r) simp_all
qed

lemma parse_objects_total: "\<exists>objs. parse_objects raw objectsOffset i n = Inr objs"
proof (induction n arbitrary: i)
  case 0
  show ?case by simp
next
  case (Suc n)
  show ?case
  proof (cases "objectsOffset + i * OBJECT_ENTRY_SIZE + OBJECT_ENTRY_SIZE > length raw")
    case True
    then show ?thesis by (simp add: Let_def)
  next
    case False
    then obtain obj where o: "parseObject raw (objectsOffset + i * OBJECT_ENTRY_SIZE) = Inr obj"
      using parseObject_in_range [of "objectsOffset + i * OBJECT_ENTRY_SIZE" raw] by auto
    from Suc.IH [of "i + 1"] obtain objs where
      p: "parse_objects raw objectsOffset (i + 1) n = Inr objs" by blast
    from False o p show ?thesis by (simp add: Let_def)
  qed
qed

text \<open>
  Claim C10. Level parsing returns a Level only when at least one layer was parsed: for
  every buffer whose header declares a layer count of zero \<open>parse\<close> does not return a
  Level; and when the buffer passes the signature check and holds the whole header, what
  \<open>parse\<close> raises is the untyped TypeError of \<open>buildCollisionMap\<close> reading the fields
  of a missing layer, not a parse error.
\<close>

theorem zero_layers_type_error:
  assumes "getUint32 raw 0x5D8 True = Inr 0"
  shows "(\<forall>lvl. WwdLoader_parse raw \<noteq> Inr lvl) \<and>
         (wwd_signature_ok raw \<and> 0x5E8 \<le> length raw \<longrightarrow> WwdLoader_parse raw = Inl TypeError)"
proof (intro conjI allI impI)
  fix lvl
  show "WwdLoader_parse raw \<noteq> Inr lvl"
    unfolding WwdLoader_parse_def Let_def
    by (intro and_then_not_Inr)
       (auto simp: assms buildCollisionMap_no_layer and_then_def split: sum.splits)
next
  assume a: "wwd_signature_ok raw \<and> 0x5E8 \<le> length raw"
  then have len: "0x5E8 \<le> length raw" by simp
  obtain magic where g0: "getUint32 raw 0x00 False = Inr magic"
    using getUint32_in_range [of 0 raw False] len by auto
  obtain ver where g1: "getUint32 raw 0x04 True = Inr ver"
    using getUint32_in_range [of 4 raw True] len by auto
  obtain fl where g2: "getUint32 raw 0x08 True = Inr fl"
    using getUint32_in_range [of 8 raw True] len by auto
  obtain sx where g3: "getInt32 raw 0x2D0 True = Inr sx"
    using getInt32_in_range [of "0x2D0" raw True] len by auto
  obtain sy where g4: "getInt32 raw 0x2D4 True = Inr sy"
    using getInt32_in_range [of "0x2D4" raw True] len by auto
  obtain numObjects where g5: "getUint32 raw 0x5DC True = Inr numObjects"
    using getUint32_in_range [of "0x5DC" raw True] len by auto
  obtain layerOffset where g6: "getUint32 raw 0x5E0 True = Inr layerOffset"
    using getUint32_in_range [of "0x5E0" raw True] len by auto
  obtain objectsOffset where g7: "getUint32 raw 0x5E4 True = Inr objectsOffset"
    using getUint32_in_range [of "0x5E4" raw True] len by auto
  obtain objs where g8: "parse_objects raw objectsOffset 0 numObjects = Inr objs"
    using parse_objects_total by blast
  have sig: "\<not> (magic \<noteq> WWD_MAGIC \<and>
      fromCharCode [stored (byte_at raw 0), stored (byte_at raw 1),
                    stored (byte_at raw 2), stored (byte_at raw 3)] \<noteq> ''WORL'' \<and>
      fromCharCode [stored (byte_at raw 0), stored (byte_at raw 1),
                    stored (byte_at raw 2), stored (byte_at raw 3)] \<noteq> ''LEVL'')"
    using a g0 by (auto simp: wwd_signature_ok_def)
  show "WwdLoader_parse raw = Inl TypeError"
    unfolding WwdLoader_parse_def Let_def g0 g1 g2 g3 g4 g5 g6 g7 assms and_then_Inr_eq
    using sig by (simp add: g8 buildCollisionMap_no_layer)
qed

text \<open>A header of 1536 bytes with the signature "WORL" and every other byte zero.\<close>

theorem zero_layers_type_error_witness:
  "getUint32 ([0x57, 0x4F, 0x52, 0x4C] @ replicate 1532 0) 0x5D8 True = Inr 0 \<and>
   wwd_signature_ok ([0x57, 0x4F, 0x52, 0x4C] @ replicate 1532 0) \<and>
   0x5E8 \<le> length ([0x57, 0x4F, 0x52, 0x4C] @ replicate 1532 (0 :: byte)) \<and>
   WwdLoader_parse ([0x57, 0x4F, 0x52, 0x4C] @ replicate 1532 0) = Inl TypeError"
proof -
  let ?raw = "[0x57, 0x4F, 0x52, 0x4C] @ replicate 1532 (0 :: byte)"
  have h: "getUint32 ?raw 0x5D8 True = Inr 0"
    by (simp add: getUint32_def nth_append)
  have s: "wwd_signature_ok ?raw"
    by (simp add: wwd_signature_ok_def getUint32_def WWD_MAGIC_def)
  have l: "0x5E8 \<le> length ?raw" by simp
  show ?thesis using zero_layers_type_error [OF h] h s l by blast
qed

section \<open>Properties of the archive reader\<close>

lemma parseDirectory_root_0: "parseDirectory raw st 0 = Some st"
  by (subst parseDirectory.simps) simp

lemma magicStr_eq:
  "3 \<le> length raw \<Longrightarrow>
   fromCharCode [stored (byte_at raw 0), stored (byte_at raw 1), stored (byte_at raw 2)] = s \<longleftrightarrow>
   take 3 raw = map of_char s"
proof -
  assume "3 \<le> length raw"
  then obtain a b c rest where "raw = a # b # c # rest"
    by (cases raw; cases "tl raw"; cases "tl (tl raw)") auto
  then show ?thesis by (simp add: fromCharCode_eq byte_at_def stored_def)
qed

text \<open>
  Claim C7, as amended. For a buffer of at least 4 bytes, archive loading fails with the
  InvalidMagic parse error (\<open>RezParseError\<close>) if and only if the 3 bytes at offset 0 are
  neither "REZ" nor "rez": the all-upper-case and the all-lower-case form are accepted,
  every other combination of letter forms is rejected. (A shorter buffer fails with
  RangeError before the signature is looked at.)
\<close>

theorem invalid_magic_iff:
  assumes "4 \<le> length raw"
  shows "(\<exists>m. RezLoader_load raw = Some (Inl (RezParseError m))) \<longleftrightarrow>
         (take 3 raw \<noteq> map of_char ''REZ'' \<and> take 3 raw \<noteq> map of_char ''rez'')"
proof -
  obtain magic where g: "getUint32 raw 0 False = Inr magic"
    using assms by (auto simp: getUint32_def)
  let ?s = "fromCharCode [stored (byte_at raw 0), stored (byte_at raw 1), stored (byte_at raw 2)]"
  have s: "?s = x \<longleftrightarrow> take 3 raw = map of_char x" for x
    using magicStr_eq [of raw x] assms by simp
  show ?thesis
  proof (cases "?s \<noteq> ''REZ'' \<and> ?s \<noteq> ''rez''")
    case True
    then have "RezLoader_load raw = Some (Inl (RezParseError ?s))"
      by (simp add: RezLoader_load_def RezLoader_parse_def g Let_def)
    then show ?thesis using True s by auto
  next
    case False
    then have "RezLoader_load raw \<noteq> Some (Inl (RezParseError m))" for m
      by (auto simp: RezLoader_load_def RezLoader_parse_def g Let_def getUint32_Inl
          split: sum.splits)
    then show ?thesis using False s by auto
  qed
qed

text \<open>
  "ABCD" is rejected with the parse error; a 20-byte header "rez" with version 1 and root
  offset 0 loads as an empty archive; the same header with "REZ" does not fail with the
  parse error.
\<close>

theorem invalid_magic_iff_witness:
  "4 \<le> length [0x41, 0x42, 0x43, 0x44 :: byte] \<and>
   RezLoader_load [0x41, 0x42, 0x43, 0x44] = Some (Inl (RezParseError ''ABC'')) \<and>
   RezLoader_load ([0x72, 0x65, 0x7A, 0x00, 1, 0, 0, 0, 0, 0, 0, 0] @ replicate 8 0) =
     Some (Inr \<lparr>rez_version = 1, fs = RezDirectoryEntry [] ''/'' [] [], fileCount = 0\<rparr>) \<and>
   RezLoader_load ([0x52, 0x45, 0x5A, 0x00, 1, 0, 0, 0, 0, 0, 0, 0] @ replicate 8 0) \<noteq>
     Some (Inl (RezParseError ''REZ''))"
proof -
  have a: "RezLoader_load [0x41, 0x42, 0x43, 0x44] = Some (Inl (RezParseError ''ABC''))"
    by (simp add: RezLoader_load_def RezLoader_parse_def getUint32_def Let_def
        byte_at_def stored_def fromCharCode_eq)
  have b: "RezLoader_load ([0x72, 0x65, 0x7A, 0x00, 1, 0, 0, 0, 0, 0, 0, 0] @ replicate 8 0) =
     Some (Inr \<lparr>rez_version = 1, fs = RezDirectoryEntry [] ''/'' [] [], fileCount = 0\<rparr>)"
    by (simp add: RezLoader_load_def RezLoader_parse_def getUint32_def Let_def
        byte_at_def stored_def fromCharCode_eq parseDirectory_root_0)
  have l: "4 \<le> length ([0x52, 0x45, 0x5A, 0x00, 1, 0, 0, 0, 0, 0, 0, 0] @ replicate 8 (0 :: byte))"
    by simp
  have c: "RezLoader_load ([0x52, 0x45, 0x5A, 0x00, 1, 0, 0, 0, 0, 0, 0, 0] @ replicate 8 0) \<noteq>
     Some (Inl (RezParseError ''REZ''))"
    using invalid_magic_iff [OF l] by simp
  show ?thesis using a b c by simp
qed

text \<open>
  The claim as stated fails for a mixed-case signature: "Rez" spells REZ
  case-insensitively and is rejected with the InvalidMagic parse error.
\<close>

theorem mixed_case_magic_counterexample:
  "spells_REZ_case_insensitively [0x52, 0x65, 0x7A, 0x00] \<and>
   RezLoader_load [0x52, 0x65, 0x7A, 0x00] = Some (Inl (RezParseError ''Rez''))"
  by (simp add: spells_REZ_case_insensitively_def upper_byte_def RezLoader_load_def
      RezLoader_parse_def getUint32_def Let_def byte_at_def stored_def fromCharCode_eq)

subsection \<open>An archive with one file\<close>

text \<open>
  The one-file archive loads: the tree has the single file entry \<open>/A.TXT\<close> under the
  key "A.TXT", with its byte range (50, 4), and the file count is 1.
\<close>

lemma one_file_archive_loads:
  "RezLoader_load one_file_archive =
     Some (Inr \<lparr>rez_version = 1,
       fs = RezDirectoryEntry [] ''/''
              [(''A.TXT'', \<lparr>file_name = ''A.TXT'', file_path = ''/A.TXT'', file_extension = ''TXT'',
                  file_offset = 50, file_size = 4, file_time = 0\<rparr>)] [],
       fileCount = 1\<rparr>)"
proof -
  have len: "length one_file_archive = 54" by (simp add: one_file_archive_def)
  have d: "parseDirectory one_file_archive (RezDirectoryEntry [] ''/'' [] [], 0) 20 =
     Some (RezDirectoryEntry [] ''/''
              [(''A.TXT'', \<lparr>file_name = ''A.TXT'', file_path = ''/A.TXT'', file_extension = ''TXT'',
                  file_offset = 50, file_size = 4, file_time = 0\<rparr>)] [], 1)"
    apply (subst parseDirectory.simps)
    apply (simp add: len Let_def parseDirectory_root_0)
    apply (simp add: one_file_archive_def le32_def DIRECTORY_FLAG_def readNullString_def
        name_bytes_def toUpperCase_def upper_byte_def slice_def fromCharCode_eq
        parseDirectory_root_0)
    done
  have g: "getUint32 one_file_archive 0 False = Inr 0x52455A00"
    "getUint32 one_file_archive 4 True = Inr 1" "getUint32 one_file_archive 8 True = Inr 20"
    by (simp_all add: getUint32_def len) (simp_all add: one_file_archive_def)
  have ms: "fromCharCode [stored (byte_at one_file_archive 0), stored (byte_at one_file_archive 1),
      stored (byte_at one_file_archive 2)] = ''REZ''"
    by (simp add: byte_at_def stored_def len fromCharCode_eq) (simp add: one_file_archive_def)
  show ?thesis
    using ms by (simp add: RezLoader_load_def RezLoader_parse_def g d Let_def)
qed

end
